theory Spec2Isabelle
  imports Main "HOL-Library.Word" "HOL-Library.AList" "HOL-Library.Sublist"
begin

section \<open>The xtcp server (server.go)\<close>

text \<open>
  The server of server.go runs as several goroutines over one shared \<open>Server\<close> value:
  the accept loop (\<open>Serve\<close>), one \<open>handleRawConn\<close> per accepted stream, and the callers
  of \<open>Stop\<close>. Each function is embedded as a function on a \<open>world\<close>: the shared server,
  the effects the goroutine has on its collaborators (listener, streams, connections,
  log) as a trace of events, and a schedule that says what the other goroutines do to
  the shared server each time this goroutine reaches an atomic access (a critical
  section under \<open>s.mu\<close>, a channel operation, a WaitGroup operation).
\<close>

subsection \<open>Data model\<close>

type_synonym listener = nat   \<comment> \<open>a net.Listener\<close>
type_synonym rawconn = nat    \<comment> \<open>a net.Conn, the accepted stream\<close>
type_synonym conn = nat       \<comment> \<open>a *Conn\<close>
type_synonym error = string   \<comment> \<open>a Go error, by its message\<close>
type_synonym duration = "64 word"   \<comment> \<open>time.Duration: int64 nanoseconds, read with sint\<close>

text \<open>The three stop modes named in server.go (their declaration is in conn.go).\<close>

datatype StopMode = StopImmediately | StopGracefullyButNotWait | StopGracefullyAndWait

text \<open>The run-time panics the code of server.go can raise.\<close>

datatype panic = CloseOfClosedChannel | NegativeWaitGroupCounter | NilPointerDereference

text \<open>\<open>var DefaultSendBufLength uint = 128\<close>; server.go never assigns it again.\<close>

definition DefaultSendBufLength :: "64 word" where
  "DefaultSendBufLength = 128"

text \<open>
  \<open>ServerOpts\<close>. \<open>Handler\<close> and \<open>Protocol\<close> are interface values, which server.go only
  passes on. \<open>SendBufLen\<close> is a \<open>uint\<close>, taken at 64 bits; the code only compares it
  with 0 and assigns it.
\<close>

record ('h, 'p) ServerOpts =
  LisAddr :: string
  Handler :: 'h
  Protocol :: 'p
  SendBufLen :: "64 word"

text \<open>
  \<open>*ServerOpts\<close>: nil or the address of a \<open>ServerOpts\<close> in the store. \<open>NewServer\<close> keeps
  the caller's pointer, so the options live in a store shared with the caller.
\<close>

datatype ptr = Nil | Ptr nat

type_synonym ('h, 'p) store = "nat \<Rightarrow> ('h, 'p) ServerOpts"

definition deref :: "('h, 'p) store \<Rightarrow> ptr \<Rightarrow> panic + ('h, 'p) ServerOpts" where
  "deref h p = (case p of Nil \<Rightarrow> Inl NilPointerDereference | Ptr a \<Rightarrow> Inr (h a))"

text \<open>
  The \<open>Server\<close> struct. \<open>stop\<close> is the channel \<open>chan struct{}\<close>, on which the code only
  closes and receives: the model keeps whether it is closed. \<open>wg\<close> is the WaitGroup's
  counter. \<open>lis\<close> is \<open>None\<close> for a nil listener. \<open>conns\<close> is \<open>None\<close> for the nil map and
  otherwise the entries of \<open>map[*Conn]bool\<close>. The mutex \<open>mu\<close> has no field: each
  critical section is one atomic function below.
\<close>

record Server =
  Opts :: ptr
  stop :: bool
  wg :: int
  lis :: "listener option"
  conns :: "(conn \<times> bool) list option"

subsection \<open>Atomic accesses to the shared server\<close>

text \<open>\<open>close(s.stop)\<close> (Stop, line 112): closing a closed channel panics.\<close>

definition close_stop :: "Server \<Rightarrow> panic + (unit \<times> Server)" where
  "close_stop s = (if stop s then Inl CloseOfClosedChannel else Inr ((), s\<lparr>stop := True\<rparr>))"

text \<open>The critical section of Stop (lines 114-122): take the listener and the registry.\<close>

definition take_lis_conns ::
  "Server \<Rightarrow> panic + ((listener option \<times> (conn \<times> bool) list option) \<times> Server)" where
  "take_lis_conns s = Inr ((lis s, conns s), s\<lparr>lis := None, conns := None\<rparr>)"

text \<open>The critical section of Serve's deferred function (lines 45-48).\<close>

definition take_lis :: "Server \<Rightarrow> panic + (listener option \<times> Server)" where
  "take_lis s = Inr (lis s, s\<lparr>lis := None\<rparr>)"

text \<open>The critical section of Serve that records the listener (lines 65-67).\<close>

definition set_lis :: "listener \<Rightarrow> Server \<Rightarrow> panic + (unit \<times> Server)" where
  "set_lis l s = Inr ((), s\<lparr>lis := Some l\<rparr>)"

text \<open>The first critical section of handleRawConn (lines 145-151): is the registry nil?\<close>

definition conns_is_nil :: "Server \<Rightarrow> panic + (bool \<times> Server)" where
  "conns_is_nil s = Inr (conns s = None, s)"

text \<open>addConn (lines 173-182).\<close>

definition addConn :: "conn \<Rightarrow> Server \<Rightarrow> panic + (bool \<times> Server)" where
  "addConn c s =
     (case conns s of
        None \<Rightarrow> Inr (False, s)
      | Some m \<Rightarrow> Inr (True, s\<lparr>conns := Some (AList.update c True m)\<rparr>))"

text \<open>removeConn (lines 184-190).\<close>

definition removeConn :: "conn \<Rightarrow> Server \<Rightarrow> panic + (unit \<times> Server)" where
  "removeConn c s =
     (case conns s of
        None \<Rightarrow> Inr ((), s)
      | Some m \<Rightarrow> Inr ((), s\<lparr>conns := Some (AList.delete c m)\<rparr>))"

text \<open>
  \<open>s.wg.Add(delta)\<close>; \<open>s.wg.Done()\<close> is \<open>Add(-1)\<close>. A WaitGroup panics when its counter
  would go negative.
\<close>

definition wg_Add :: "int \<Rightarrow> Server \<Rightarrow> panic + (unit \<times> Server)" where
  "wg_Add delta s =
     (if wg s + delta < 0 then Inl NegativeWaitGroupCounter
      else Inr ((), s\<lparr>wg := wg s + delta\<rparr>))"

definition wg_Done :: "Server \<Rightarrow> panic + (unit \<times> Server)" where
  "wg_Done = wg_Add (- 1)"

subsection \<open>What the other goroutines do\<close>

text \<open>
  Every write server.go makes to a \<open>Server\<close> is one of the atomic accesses above, so
  whatever the other goroutines do between two accesses of this one is a sequence of
  them. An unrecovered panic in any goroutine ends the program.
\<close>

datatype action =
    ActCloseStop | ActTakeLisConns | ActTakeLis | ActSetLis listener
  | ActAddConn conn | ActRemoveConn conn | ActWgAdd | ActWgDone

definition state_of :: "panic + ('a \<times> Server) \<Rightarrow> panic + Server" where
  "state_of r = (case r of Inl p \<Rightarrow> Inl p | Inr (x, s) \<Rightarrow> Inr s)"

fun act :: "action \<Rightarrow> Server \<Rightarrow> panic + Server" where
  "act ActCloseStop s = state_of (close_stop s)"
| "act ActTakeLisConns s = state_of (take_lis_conns s)"
| "act ActTakeLis s = state_of (take_lis s)"
| "act (ActSetLis l) s = state_of (set_lis l s)"
| "act (ActAddConn c) s = state_of (addConn c s)"
| "act (ActRemoveConn c) s = state_of (removeConn c s)"
| "act ActWgAdd s = state_of (wg_Add 1 s)"
| "act ActWgDone s = state_of (wg_Done s)"

fun acts :: "action list \<Rightarrow> Server \<Rightarrow> panic + Server" where
  "acts [] s = Inr s"
| "acts (a # as) s = (case act a s of Inl p \<Rightarrow> Inl p | Inr s' \<Rightarrow> acts as s')"

subsection \<open>A goroutine's world\<close>

text \<open>The calls a goroutine of server.go makes on its collaborators, in program order.\<close>

datatype accept_error =
    NetError bool   \<comment> \<open>a net.Error, with what its Temporary() returns\<close>
  | OtherError      \<comment> \<open>an error that is not a net.Error\<close>

datatype event =
    NetListen string                   \<comment> \<open>net.Listen("tcp", addr)\<close>
  | LogListenFatal error string        \<comment> \<open>xlog.Fatalf, line 59\<close>
  | LogListenOn listener               \<comment> \<open>xlog.Info, line 63\<close>
  | LogAcceptRetry accept_error duration  \<comment> \<open>xlog.Errorf, line 83\<close>
  | TimerFired duration                \<comment> \<open>time.After(tempDelay) delivered, line 85\<close>
  | LogAcceptClosed accept_error       \<comment> \<open>xlog.Errorf, line 96\<close>
  | GoHandleRawConn rawconn            \<comment> \<open>go s.handleRawConn(conn), line 103\<close>
  | LisClose listener                  \<comment> \<open>lis.Close()\<close>
  | ConnStop conn StopMode             \<comment> \<open>c.Stop(m)\<close>
  | WgWait                             \<comment> \<open>s.wg.Wait(), line 138\<close>
  | LogServerStop                      \<comment> \<open>xlog.Info, line 141\<close>
  | RawClose rawconn                   \<comment> \<open>conn.Close(), line 148\<close>
  | SetRawConn conn rawconn            \<comment> \<open>tcpConn.RawConn = conn, line 157\<close>
  | ConnServe conn                     \<comment> \<open>tcpConn.serve(), line 170\<close>

record world =
  srv :: Server
  sched :: "action list list"
  trace :: "event list"

definition emit :: "event \<Rightarrow> world \<Rightarrow> world" where
  "emit e w = w\<lparr>trace := trace w @ [e]\<rparr>"

text \<open>
  Before each atomic access the other goroutines run: the next entry of the schedule
  is applied to the shared server (nothing once the schedule is used up).
\<close>

definition yield :: "world \<Rightarrow> panic + world" where
  "yield w =
     (case sched w of
        [] \<Rightarrow> Inr w
      | c # cs \<Rightarrow>
          (case acts c (srv w) of
             Inl p \<Rightarrow> Inl p
           | Inr s' \<Rightarrow> Inr (w\<lparr>srv := s', sched := cs\<rparr>)))"

definition atomic :: "(Server \<Rightarrow> panic + ('a \<times> Server)) \<Rightarrow> world \<Rightarrow> panic + ('a \<times> world)" where
  "atomic f w =
     (case yield w of
        Inl p \<Rightarrow> Inl p
      | Inr w1 \<Rightarrow>
          (case f (srv w1) of
             Inl p \<Rightarrow> Inl p
           | Inr (x, s') \<Rightarrow> Inr (x, w1\<lparr>srv := s'\<rparr>)))"

subsection \<open>NewServer\<close>

text \<open>
  NewServer (lines 193-205). The new server holds the caller's pointer; the write to
  \<open>s.Opts.SendBufLen\<close> goes through it into the caller's struct. It makes no call on
  any collaborator: its trace is empty.
\<close>

definition NewServer ::
  "ptr \<Rightarrow> ('h, 'p) store \<Rightarrow> panic + (Server \<times> ('h, 'p) store \<times> event list)" where
  "NewServer opts h =
     (let s = \<lparr>Opts = opts, stop = False, wg = 0, lis = None, conns = Some []\<rparr> in
      case Opts s of
        Nil \<Rightarrow> Inl NilPointerDereference
      | Ptr a \<Rightarrow>
          if SendBufLen (h a) = 0
          then Inr (s, h(a := (h a)\<lparr>SendBufLen := DefaultSendBufLength\<rparr>), [])
          else Inr (s, h, []))"

subsection \<open>Stop\<close>

text \<open>
  \<open>for c := range conns\<close>: the keys of the map, none for the nil map. Go leaves the
  order of the iteration open; the model takes the order of the entries.
\<close>

definition range_keys :: "(conn \<times> bool) list option \<Rightarrow> conn list" where
  "range_keys cs = (case cs of None \<Rightarrow> [] | Some m \<Rightarrow> map fst m)"

text \<open>The mode Stop hands to each connection (lines 128-132).\<close>

definition conn_mode :: "StopMode \<Rightarrow> StopMode" where
  "conn_mode mode = (if mode = StopGracefullyAndWait then StopGracefullyButNotWait else mode)"

text \<open>
  Stop (lines 111-142). \<open>s.wg.Wait()\<close> is recorded as the event \<open>WgWait\<close>; how long
  it blocks is not modelled.
\<close>

definition Stop :: "StopMode \<Rightarrow> world \<Rightarrow> panic + world" where
  "Stop mode w0 =
     (case atomic close_stop w0 of
        Inl p \<Rightarrow> Inl p
      | Inr (u, w1) \<Rightarrow>
          (case atomic take_lis_conns w1 of
             Inl p \<Rightarrow> Inl p
           | Inr ((l, cs), w2) \<Rightarrow>
               let w3 = (case l of None \<Rightarrow> w2 | Some l' \<Rightarrow> emit (LisClose l') w2);
                   m = conn_mode mode;
                   w4 = fold (\<lambda>c. emit (ConnStop c m)) (range_keys cs) w3;
                   w5 = (if mode = StopGracefullyAndWait then emit WgWait w4 else w4)
               in Inr (emit LogServerStop w5)))"

subsection \<open>handleRawConn\<close>

text \<open>
  handleRawConn (lines 144-171). \<open>NewConn\<close> is conn.go's constructor, a parameter
  here; \<open>h\<close> is the store the server's options live in. \<open>tcpConn.serve()\<close> returns
  when the connection has stopped; the deferred function then unregisters it.
\<close>

definition handleRawConn ::
  "('h \<Rightarrow> 'p \<Rightarrow> 64 word \<Rightarrow> error + conn) \<Rightarrow> ('h, 'p) store \<Rightarrow> rawconn \<Rightarrow> world
     \<Rightarrow> panic + world" where
  "handleRawConn NewConn h conn w0 =
     (case atomic conns_is_nil w0 of
        Inl p \<Rightarrow> Inl p
      | Inr (isnil, w1) \<Rightarrow>
          if isnil then Inr (emit (RawClose conn) w1)
          else
            (case deref h (Opts (srv w1)) of
               Inl p \<Rightarrow> Inl p
             | Inr opts \<Rightarrow>
                 (case NewConn (Handler opts) (Protocol opts) (SendBufLen opts) of
                    Inl err \<Rightarrow> Inr w1
                  | Inr tcpConn \<Rightarrow>
                      (case atomic (addConn tcpConn) (emit (SetRawConn tcpConn conn) w1) of
                         Inl p \<Rightarrow> Inl p
                       | Inr (ok, w2) \<Rightarrow>
                           if \<not> ok then Inr (emit (ConnStop tcpConn StopImmediately) w2)
                           else
                             (case atomic (wg_Add 1) w2 of
                                Inl p \<Rightarrow> Inl p
                              | Inr (u, w3) \<Rightarrow>
                                  (case atomic (removeConn tcpConn) (emit (ConnServe tcpConn) w3) of
                                     Inl p \<Rightarrow> Inl p
                                   | Inr (u', w4) \<Rightarrow>
                                       (case atomic wg_Done w4 of
                                          Inl p \<Rightarrow> Inl p
                                        | Inr (u'', w5) \<Rightarrow> Inr w5)))))))"

subsection \<open>Serve\<close>

definition Millisecond :: duration where
  "Millisecond = 1000000"

definition Second :: duration where
  "Second = 1000000000"

text \<open>The new value of \<open>tempDelay\<close> after a temporary accept error (lines 75-82).\<close>

definition backoff :: "duration \<Rightarrow> duration" where
  "backoff tempDelay =
     (let d = (if tempDelay = 0 then 5 * Millisecond else tempDelay * 2);
          max = 1 * Second
      in if max <s d then max else d)"

text \<open>\<open>nerr, ok := err.(net.Error); ok && nerr.Temporary()\<close> (line 74).\<close>

fun is_temporary :: "accept_error \<Rightarrow> bool" where
  "is_temporary (NetError t) = t"
| "is_temporary OtherError = False"

text \<open>What one call of \<open>l.Accept()\<close> returns.\<close>

datatype accept_result = Accepted rawconn | AcceptError accept_error


datatype loop_exit =
    InAccept duration   \<comment> \<open>blocked in l.Accept(), with the current tempDelay\<close>
  | LoopReturned

text \<open>
  The accept loop (lines 71-104), run on the results of its successive calls of
  \<open>l.Accept()\<close>; when they are used up the goroutine is blocked in the next call.
  The other goroutines run while Accept blocks and while the backoff select waits.
  In the select (lines 84-89) the stop channel is ready when it is closed, before the
  timer delivers.
\<close>

fun accept_loop ::
  "listener \<Rightarrow> duration \<Rightarrow> accept_result list \<Rightarrow> world \<Rightarrow> panic + (loop_exit \<times> world)" where
  "accept_loop l tempDelay [] w = Inr (InAccept tempDelay, w)"
| "accept_loop l tempDelay (r # rs) w =
     (case yield w of
        Inl p \<Rightarrow> Inl p
      | Inr w1 \<Rightarrow>
          (case r of
             AcceptError err \<Rightarrow>
               if is_temporary err then
                 (let d = backoff tempDelay in
                  case yield (emit (LogAcceptRetry err d) w1) of
                    Inl p \<Rightarrow> Inl p
                  | Inr w2 \<Rightarrow>
                      if stop (srv w2) then Inr (LoopReturned, w2)
                      else accept_loop l d rs (emit (TimerFired d) w2))
               else if stop (srv w1) then Inr (LoopReturned, w1)
               else Inr (LoopReturned, emit (LogAcceptClosed err) w1)
           | Accepted conn \<Rightarrow> accept_loop l 0 rs (emit (GoHandleRawConn conn) w1)))"




subsection \<open>Reading a trace\<close>

text \<open>The delays of the timers that fired, and the delays announced in the retry log.\<close>

fun timers :: "event list \<Rightarrow> duration list" where
  "timers [] = []"
| "timers (TimerFired d # es) = d # timers es"
| "timers (e # es) = timers es"

fun retries :: "event list \<Rightarrow> duration list" where
  "retries [] = []"
| "retries (LogAcceptRetry e d # es) = d # retries es"
| "retries (e # es) = retries es"

text \<open>
  The backoff rule in the specification's words, for comparison with the code: the
  delay after \<open>k\<close> consecutive temporary failures is 5ms doubled \<open>k\<close> times, capped at
  1000ms (in nanoseconds); a successful accept resets the count; any other error ends
  the loop.
\<close>

fun spec_delays :: "nat \<Rightarrow> accept_result list \<Rightarrow> int list" where
  "spec_delays k [] = []"
| "spec_delays k (Accepted c # rs) = spec_delays 0 rs"
| "spec_delays k (AcceptError e # rs) =
     (if is_temporary e then min (5 * 2 ^ k) 1000 * 1000000 # spec_delays (Suc k) rs else [])"

text \<open>The value of \<open>tempDelay\<close> after \<open>k\<close> consecutive temporary failures.\<close>

definition delay_after :: "nat \<Rightarrow> duration \<Rightarrow> bool" where
  "delay_after k d = (if k = 0 then d = 0 else sint d = min (5 * 2 ^ (k - 1)) 1000 * 1000000)"

text \<open>No goroutine closes the stop channel: it is open and the schedule has no close.\<close>

definition never_stopped :: "world \<Rightarrow> bool" where
  "never_stopped w = (\<not> stop (srv w) \<and> ActCloseStop \<notin> set (concat (sched w)))"

subsection \<open>Example states\<close>

definition world_of :: "Server \<Rightarrow> action list list \<Rightarrow> world" where
  "world_of s sch = \<lparr>srv = s, sched = sch, trace = []\<rparr>"

text \<open>A server as NewServer returns it, for options at address 0.\<close>

definition created_server :: Server where
  "created_server = \<lparr>Opts = Ptr 0, stop = False, wg = 0, lis = None, conns = Some []\<rparr>"

text \<open>A server in its accept loop on listener 7, serving connections 1 and 2.\<close>

definition serving_server :: Server where
  "serving_server =
     \<lparr>Opts = Ptr 0, stop = False, wg = 3, lis = Some 7, conns = Some [(1, True), (2, True)]\<rparr>"

text \<open>The same server once Stop has closed the stop channel and taken the registry.\<close>

definition stopped_server :: Server where
  "stopped_server = \<lparr>Opts = Ptr 0, stop = True, wg = 3, lis = None, conns = None\<rparr>"

definition example_store :: "(nat, nat) store" where
  "example_store = (\<lambda>a. \<lparr>LisAddr = '':9000'', Handler = 1, Protocol = 2, SendBufLen = 0\<rparr>)"

text \<open>What Accept returns on a temporary failure such as too many open files.\<close>

definition temporary_error :: accept_result where
  "temporary_error = AcceptError (NetError True)"

section \<open>Properties\<close>

subsection \<open>The atomic accesses\<close>

lemmas atomic_defs = close_stop_def take_lis_conns_def take_lis_def set_lis_def
  conns_is_nil_def addConn_def removeConn_def wg_Add_def wg_Done_def state_of_def

lemmas example_defs = world_of_def created_server_def serving_server_def stopped_server_def
  example_store_def

lemma act_conns_None: "conns s = None \<Longrightarrow> act a s = Inr s' \<Longrightarrow> conns s' = None"
  by (cases a) (auto simp: atomic_defs split: if_splits)

lemma acts_conns_None: "conns s = None \<Longrightarrow> acts as s = Inr s' \<Longrightarrow> conns s' = None"
proof (induction as arbitrary: s)
  case Nil
  then show ?case by simp
next
  case (Cons a as)
  then show ?case by (auto split: sum.splits dest: act_conns_None)
qed

lemma acts_append:
  "acts (as @ bs) s = (case acts as s of Inl p \<Rightarrow> Inl p | Inr s' \<Rightarrow> acts bs s')"
  by (induction as arbitrary: s) (auto split: sum.splits)

lemma act_stop_mono: "stop s \<Longrightarrow> act a s = Inr s' \<Longrightarrow> stop s'"
  by (cases a) (auto simp: atomic_defs split: if_splits option.splits)

lemma acts_stop_mono: "stop s \<Longrightarrow> acts as s = Inr s' \<Longrightarrow> stop s'"
proof (induction as arbitrary: s)
  case Nil
  then show ?case by simp
next
  case (Cons a as)
  then show ?case by (auto split: sum.splits dest: act_stop_mono)
qed

lemma act_stop_open:
  "\<not> stop s \<Longrightarrow> a \<noteq> ActCloseStop \<Longrightarrow> act a s = Inr s' \<Longrightarrow> \<not> stop s'"
  by (cases a) (auto simp: atomic_defs split: if_splits option.splits)

lemma acts_stop_open:
  "\<not> stop s \<Longrightarrow> ActCloseStop \<notin> set as \<Longrightarrow> acts as s = Inr s' \<Longrightarrow> \<not> stop s'"
proof (induction as arbitrary: s)
  case Nil
  then show ?case by simp
next
  case (Cons a as)
  from Cons.prems obtain s1 where s1: "act a s = Inr s1" and r: "acts as s1 = Inr s'"
    by (auto split: sum.splits)
  have "a \<noteq> ActCloseStop" using Cons.prems by auto
  with Cons.prems(1) s1 have "\<not> stop s1" by (blast dest: act_stop_open)
  with Cons.IH r Cons.prems show ?case by simp
qed

text \<open>
  The example states are states of a run: NewServer returns the first, the accept loop
  and two connection goroutines lead from it to the second, and a Stop from there to
  the third.
\<close>

lemma created_server_reachable:
  "NewServer (Ptr 0) example_store
     = Inr (created_server, example_store(0 := (example_store 0)\<lparr>SendBufLen := 128\<rparr>), [])"
  by (simp add: NewServer_def example_defs DefaultSendBufLength_def)

lemma serving_server_reachable:
  "acts [ActWgAdd, ActSetLis 7, ActAddConn 1, ActWgAdd, ActAddConn 2, ActWgAdd] created_server
     = Inr serving_server"
  by (simp add: example_defs atomic_defs)

lemma stopped_server_reachable:
  "acts [ActCloseStop, ActTakeLisConns] serving_server = Inr stopped_server"
  by (simp add: example_defs atomic_defs)

subsection \<open>Worlds\<close>

lemma yield_trace: "yield w = Inr w' \<Longrightarrow> trace w' = trace w"
  by (auto simp: yield_def split: list.splits sum.splits)


lemma yield_stop_mono: "stop (srv w) \<Longrightarrow> yield w = Inr w' \<Longrightarrow> stop (srv w')"
  by (auto simp: yield_def split: list.splits sum.splits dest: acts_stop_mono)

lemma yield_conns_None: "conns (srv w) = None \<Longrightarrow> yield w = Inr w' \<Longrightarrow> conns (srv w') = None"
  by (auto simp: yield_def split: list.splits sum.splits dest: acts_conns_None)

lemma atomic_nil:
  "sched w = [] \<Longrightarrow>
   atomic f w = (case f (srv w) of Inl p \<Rightarrow> Inl p | Inr (x, s') \<Rightarrow> Inr (x, w\<lparr>srv := s'\<rparr>))"
  by (simp add: atomic_def yield_def)

lemma fold_emit_trace: "trace (fold (\<lambda>c. emit (f c)) cs w) = trace w @ map f cs"
  by (induction cs arbitrary: w) (simp_all add: emit_def)

lemma fold_emit_srv: "srv (fold (\<lambda>c. emit (f c)) cs w) = srv w"
  by (induction cs arbitrary: w) (simp_all add: emit_def)

lemma atomic_close_stop:
  "atomic close_stop w =
     (case yield w of
        Inl p \<Rightarrow> Inl p
      | Inr w1 \<Rightarrow>
          if stop (srv w1) then Inl CloseOfClosedChannel
          else Inr ((), w1\<lparr>srv := (srv w1)\<lparr>stop := True\<rparr>\<rparr>))"
  by (simp add: atomic_def close_stop_def split: sum.splits)

lemma atomic_take_lis_conns:
  "atomic take_lis_conns w =
     (case yield w of
        Inl p \<Rightarrow> Inl p
      | Inr w1 \<Rightarrow>
          Inr ((lis (srv w1), conns (srv w1)),
               w1\<lparr>srv := (srv w1)\<lparr>lis := None, conns := None\<rparr>\<rparr>))"
  by (simp add: atomic_def take_lis_conns_def split: sum.splits)

subsection \<open>Stop\<close>

lemma Stop_Inr_D:
  assumes "Stop mode w = Inr w'"
  shows "\<exists>w1 w2. yield w = Inr w1 \<and> \<not> stop (srv w1)
           \<and> yield (w1\<lparr>srv := (srv w1)\<lparr>stop := True\<rparr>\<rparr>) = Inr w2
           \<and> srv w' = (srv w2)\<lparr>lis := None, conns := None\<rparr>"
  using assms
  by (auto simp: Stop_def atomic_close_stop atomic_take_lis_conns Let_def emit_def fold_emit_srv
           split: sum.splits if_splits option.splits)

text \<open>Whatever the other goroutines do, a Stop that returns leaves the server stopped.\<close>

lemma Stop_result:
  assumes "Stop mode w = Inr w'"
  shows "stop (srv w') \<and> lis (srv w') = None \<and> conns (srv w') = None"
proof -
  from Stop_Inr_D [OF assms] obtain w1 w2 where
    y: "yield (w1\<lparr>srv := (srv w1)\<lparr>stop := True\<rparr>\<rparr>) = Inr w2"
    and s: "srv w' = (srv w2)\<lparr>lis := None, conns := None\<rparr>" by blast
  have "stop (srv w2)" using yield_stop_mono [OF _ y] by simp
  with s show ?thesis by simp
qed

text \<open>A Stop that starts with the stop channel closed never returns.\<close>

lemma Stop_closed_panics:
  assumes "stop (srv w)"
  shows "isl (Stop mode w)"
  using assms
  by (auto simp: Stop_def atomic_close_stop split: sum.splits dest: yield_stop_mono)




text \<open>
  C2. Take any interleaving of the goroutines' atomic accesses in which Stop's critical
  section occurs, or any continuation of a state in which a call of Stop has returned.
  In the state it ends in, however much later, the registry is nil, a registration
  attempt fails and leaves the server as it is, and unregistering a connection changes
  nothing: the registry Stop took is out of removeConn's reach, so no connection
  leaves it a second time.
\<close>

theorem registry_stays_nil:
  assumes "acts (pre @ ActTakeLisConns # post) s = Inr s'"
    and "Stop mode w = Inr w1" and "acts later (srv w1) = Inr t'"
  shows "conns s' = None \<and> addConn c s' = Inr (False, s') \<and> removeConn c s' = Inr ((), s')
       \<and> conns t' = None \<and> addConn c t' = Inr (False, t') \<and> removeConn c t' = Inr ((), t')"
proof -
  from assms(1) obtain s1 s2 where s1: "acts pre s = Inr s1"
    and s2: "act ActTakeLisConns s1 = Inr s2" and s': "acts post s2 = Inr s'"
    by (auto simp: acts_append split: sum.splits)
  from s2 have "conns s2 = None" by (auto simp: atomic_defs)
  then have a: "conns s' = None" using s' by (rule acts_conns_None)
  from Stop_result [OF assms(2)] have "conns (srv w1) = None" by simp
  then have b: "conns t' = None" using assms(3) by (rule acts_conns_None)
  from a b show ?thesis by (simp add: addConn_def removeConn_def)
qed

theorem registry_stays_nil_witness:
  "acts ([ActAddConn 3] @ ActTakeLisConns # [ActAddConn 4, ActRemoveConn 1, ActWgDone])
     serving_server = Inr (stopped_server\<lparr>stop := False, wg := 2\<rparr>)
   \<and> Stop StopImmediately (world_of serving_server [])
     = Inr \<lparr>srv = stopped_server, sched = [],
            trace = [LisClose 7, ConnStop 1 StopImmediately, ConnStop 2 StopImmediately,
                     LogServerStop]\<rparr>
   \<and> acts [ActAddConn 4, ActRemoveConn 2, ActWgDone]
        (srv \<lparr>srv = stopped_server, sched = [],
              trace = [LisClose 7, ConnStop 1 StopImmediately, ConnStop 2 StopImmediately,
                       LogServerStop]\<rparr>)
     = Inr (stopped_server\<lparr>wg := 2\<rparr>)
   \<and> conns (stopped_server\<lparr>stop := False, wg := 2\<rparr>) = None
   \<and> addConn 5 (stopped_server\<lparr>stop := False, wg := 2\<rparr>)
       = Inr (False, stopped_server\<lparr>stop := False, wg := 2\<rparr>)
   \<and> removeConn 5 (stopped_server\<lparr>stop := False, wg := 2\<rparr>)
       = Inr ((), stopped_server\<lparr>stop := False, wg := 2\<rparr>)
   \<and> conns (stopped_server\<lparr>wg := 2\<rparr>) = None
   \<and> addConn 5 (stopped_server\<lparr>wg := 2\<rparr>) = Inr (False, stopped_server\<lparr>wg := 2\<rparr>)
   \<and> removeConn 5 (stopped_server\<lparr>wg := 2\<rparr>) = Inr ((), stopped_server\<lparr>wg := 2\<rparr>)"
proof -
  have run: "acts ([ActAddConn 3] @ ActTakeLisConns # [ActAddConn 4, ActRemoveConn 1, ActWgDone])
     serving_server = Inr (stopped_server\<lparr>stop := False, wg := 2\<rparr>)"
    by (simp add: example_defs atomic_defs)
  have stopped: "Stop StopImmediately (world_of serving_server [])
     = Inr \<lparr>srv = stopped_server, sched = [],
            trace = [LisClose 7, ConnStop 1 StopImmediately, ConnStop 2 StopImmediately,
                     LogServerStop]\<rparr>"
    by (simp add: Stop_def atomic_def yield_def example_defs atomic_defs emit_def range_keys_def
          conn_mode_def)
  have later: "acts [ActAddConn 4, ActRemoveConn 2, ActWgDone]
        (srv \<lparr>srv = stopped_server, sched = [],
              trace = [LisClose 7, ConnStop 1 StopImmediately, ConnStop 2 StopImmediately,
                       LogServerStop]\<rparr>)
     = Inr (stopped_server\<lparr>wg := 2\<rparr>)"
    by (simp add: example_defs atomic_defs)
  from registry_stays_nil [OF run stopped later, of 5] run stopped later
  show ?thesis by simp
qed

text \<open>
  C3. When the close of the stop channel succeeds, Stop returns, and what it does to
  its collaborators is exactly: close the listener it took, if any; stop every
  connection of the registry it took, with GracefulNoWait when the caller's mode is
  GracefulWait and with the caller's mode otherwise; wait on the WaitGroup if and only
  if the caller's mode is GracefulWait; log.
\<close>

theorem Stop_fanout:
  assumes "atomic close_stop w = Inr (u, w1)" and "yield w1 = Inr w2"
  shows "\<exists>w'. Stop mode w = Inr w' \<and>
     trace w' = trace w
       @ (case lis (srv w2) of None \<Rightarrow> [] | Some l \<Rightarrow> [LisClose l])
       @ map (\<lambda>c. ConnStop c (if mode = StopGracefullyAndWait then StopGracefullyButNotWait
                                else mode))
            (range_keys (conns (srv w2)))
       @ (if mode = StopGracefullyAndWait then [WgWait] else [])
       @ [LogServerStop]"
proof -
  from assms(1) have t1: "trace w1 = trace w"
    by (auto simp: atomic_close_stop split: sum.splits if_splits dest: yield_trace)
  from assms(2) have t2: "trace w2 = trace w1" by (rule yield_trace)
  show ?thesis using assms t1 t2
    by (auto simp: Stop_def atomic_take_lis_conns Let_def emit_def fold_emit_trace conn_mode_def
             split: option.splits)
qed

theorem Stop_fanout_witness:
  "atomic close_stop (world_of serving_server [])
     = Inr ((), world_of (serving_server\<lparr>stop := True\<rparr>) [])
   \<and> yield (world_of (serving_server\<lparr>stop := True\<rparr>) [])
     = Inr (world_of (serving_server\<lparr>stop := True\<rparr>) [])
   \<and> (\<exists>w'. Stop StopGracefullyAndWait (world_of serving_server []) = Inr w' \<and>
        trace w' = [LisClose 7, ConnStop 1 StopGracefullyButNotWait,
                    ConnStop 2 StopGracefullyButNotWait, WgWait, LogServerStop])"
proof -
  have a: "atomic close_stop (world_of serving_server [])
             = Inr ((), world_of (serving_server\<lparr>stop := True\<rparr>) [])"
    by (simp add: atomic_def yield_def close_stop_def example_defs)
  have b: "yield (world_of (serving_server\<lparr>stop := True\<rparr>) [])
             = Inr (world_of (serving_server\<lparr>stop := True\<rparr>) [])"
    by (simp add: yield_def example_defs)
  from Stop_fanout [OF a b, of StopGracefullyAndWait] a b show ?thesis
    by (simp add: example_defs range_keys_def)
qed

subsection \<open>The accept loop\<close>

lemma sint_double:
  fixes d :: duration
  assumes "0 \<le> sint d" "sint d \<le> 1000000000"
  shows "sint (d * 2) = 2 * sint d"
proof -
  have "sint (d * 2) = signed_take_bit 63 (sint d * 2)"
    by (simp add: sint_word_ariths)
  also have "\<dots> = sint d * 2"
    using assms by (intro signed_take_bit_int_eq_self) auto
  finally show ?thesis by simp
qed

text \<open>On the values \<open>tempDelay\<close> takes, the int64 arithmetic of the backoff never wraps.\<close>

lemma backoff_sint:
  fixes d :: duration
  assumes "0 \<le> sint d" "sint d \<le> 1000000000"
  shows "sint (backoff d) = (if sint d = 0 then 5000000 else min (2 * sint d) 1000000000)"
proof (cases "d = 0")
  case True
  then show ?thesis
    by (simp add: backoff_def Let_def word_sless_alt Second_def Millisecond_def)
next
  case False
  then have nz: "sint d \<noteq> 0" by (metis sint_0 signed_word_eqI)
  show ?thesis using False nz assms
    by (simp add: backoff_def Let_def word_sless_alt Second_def sint_double min_def)
qed

lemma backoff_values:
  "backoff 0 = 5000000" "backoff 5000000 = 10000000" "backoff 10000000 = 20000000"
  "backoff 20000000 = 40000000" "backoff 40000000 = 80000000" "backoff 80000000 = 160000000"
  "backoff 160000000 = 320000000" "backoff 320000000 = 640000000"
  "backoff 640000000 = 1000000000" "backoff 1000000000 = 1000000000"
  by (simp_all add: backoff_def Millisecond_def Second_def word_sless_alt)

lemma backoff_step:
  assumes "delay_after k d"
  shows "sint (backoff d) = min (5 * 2 ^ k) 1000 * 1000000 \<and> delay_after (Suc k) (backoff d)"
proof (cases k)
  case 0
  with assms have "d = 0" by (simp add: delay_after_def)
  then have "sint (backoff d) = 5000000" using backoff_sint [of d] by simp
  with 0 show ?thesis by (simp add: delay_after_def)
next
  case (Suc j)
  with assms have d: "sint d = min (5 * 2 ^ j) 1000 * 1000000" by (simp add: delay_after_def)
  have pos: "(0::int) < 5 * 2 ^ j" by simp
  from d pos have b: "0 < sint d" "sint d \<le> 1000000000" by (auto simp: min_def)
  then have "sint (backoff d) = min (2 * sint d) 1000000000"
    using backoff_sint [of d] by simp
  also have "\<dots> = min (5 * 2 ^ Suc j) 1000 * 1000000"
    using d by (auto simp: min_def)
  finally show ?thesis using Suc by (simp add: delay_after_def)
qed

text \<open>The specification's delays for a run of temporary failures, written out.\<close>

lemma spec_delays_replicate:
  "spec_delays j (replicate n temporary_error)
     = map (\<lambda>k. min (5 * 2 ^ k) 1000 * 1000000) [j..<j + n]"
proof (induction n arbitrary: j)
  case 0
  then show ?case by simp
next
  case (Suc n)
  have "[j..<j + Suc n] = j # [Suc j..<Suc j + n]" by (simp add: upt_rec)
  with Suc [of "Suc j"] show ?case by (simp add: temporary_error_def)
qed

lemma timers_append: "timers (xs @ ys) = timers xs @ timers ys"
  by (induction xs rule: timers.induct) simp_all

lemma retries_append: "retries (xs @ ys) = retries xs @ retries ys"
  by (induction xs rule: retries.induct) simp_all

lemma never_stopped_yield:
  assumes "never_stopped w" "yield w = Inr w1"
  shows "never_stopped w1"
proof (cases "sched w")
  case Nil
  with assms show ?thesis by (simp add: yield_def)
next
  case (Cons c cs)
  with assms obtain s' where a: "acts c (srv w) = Inr s'"
    and w1: "w1 = w\<lparr>srv := s', sched := cs\<rparr>"
    by (auto simp: yield_def split: sum.splits)
  from assms(1) Cons
  have "\<not> stop (srv w)" "ActCloseStop \<notin> set c" "ActCloseStop \<notin> set (concat cs)"
    by (auto simp: never_stopped_def)
  with a w1 show ?thesis by (auto simp: never_stopped_def dest: acts_stop_open)
qed

lemma never_stopped_emit: "never_stopped (emit e w) = never_stopped w"
  by (simp add: never_stopped_def emit_def)

text \<open>A run of the loop that nobody stops: every announced delay is slept in full.\<close>

lemma accept_loop_delays:
  assumes "never_stopped w" "delay_after k d" "accept_loop l d rs w = Inr (ex, w')"
  shows "map sint (timers (trace w')) = map sint (timers (trace w)) @ spec_delays k rs
       \<and> map sint (retries (trace w')) = map sint (retries (trace w)) @ spec_delays k rs"
  using assms
proof (induction rs arbitrary: w d k)
  case Nil
  then show ?case by simp
next
  case (Cons r rs)
  from Cons.prems(3) obtain w1 where y1: "yield w = Inr w1"
    by (auto split: sum.splits)
  have ns1: "never_stopped w1" using Cons.prems(1) y1 by (rule never_stopped_yield)
  have t1: "trace w1 = trace w" using y1 by (rule yield_trace)
  show ?case
  proof (cases r)
    case (Accepted c)
    with Cons.prems(3) y1
    have run: "accept_loop l 0 rs (emit (GoHandleRawConn c) w1) = Inr (ex, w')"
      by simp
    have da: "delay_after 0 0" by (simp add: delay_after_def)
    have ns: "never_stopped (emit (GoHandleRawConn c) w1)"
      using ns1 by (simp add: never_stopped_emit)
    from Cons.IH [OF ns da run] Accepted t1 show ?thesis
      by (simp add: emit_def timers_append retries_append)
  next
    case (AcceptError e)
    show ?thesis
    proof (cases "is_temporary e")
      case False
      with Cons.prems(3) y1 AcceptError t1 show ?thesis
        by (auto simp: emit_def timers_append retries_append split: if_splits)
    next
      case True
      let ?d = "backoff d"
      from Cons.prems(3) y1 AcceptError True obtain w2 where
        y2: "yield (emit (LogAcceptRetry e ?d) w1) = Inr w2"
        by (auto simp: Let_def split: sum.splits)
      have ns2: "never_stopped w2"
        using never_stopped_yield [OF _ y2] ns1 by (simp add: never_stopped_emit)
      then have open2: "\<not> stop (srv w2)" by (simp add: never_stopped_def)
      have t2: "trace w2 = trace w @ [LogAcceptRetry e ?d]"
        using yield_trace [OF y2] t1 by (simp add: emit_def)
      from Cons.prems(3) y1 y2 AcceptError True open2
      have run: "accept_loop l ?d rs (emit (TimerFired ?d) w2) = Inr (ex, w')"
        by (simp add: Let_def)
      from backoff_step [OF Cons.prems(2)]
      have b: "sint ?d = min (5 * 2 ^ k) 1000 * 1000000" and da: "delay_after (Suc k) ?d"
        by auto
      have ns: "never_stopped (emit (TimerFired ?d) w2)"
        using ns2 by (simp add: never_stopped_emit)
      from Cons.IH [OF ns da run] t2 b AcceptError True show ?thesis
        by (simp add: emit_def timers_append retries_append)
    qed
  qed
qed

text \<open>
  Any run of the loop, whatever the other goroutines do: the announced delays are an
  initial part of the specification's, and the delays slept in full an initial part of
  the announced ones.
\<close>

lemma accept_loop_delays_any:
  assumes "delay_after k d" "accept_loop l d rs w = Inr (ex, w')"
  shows "\<exists>ds ts. map sint (retries (trace w')) = map sint (retries (trace w)) @ ds
           \<and> map sint (timers (trace w')) = map sint (timers (trace w)) @ ts
           \<and> prefix ts ds \<and> prefix ds (spec_delays k rs)"
  using assms
proof (induction rs arbitrary: w d k)
  case Nil
  then show ?case by simp
next
  case (Cons r rs)
  from Cons.prems(2) obtain w1 where y1: "yield w = Inr w1"
    by (auto split: sum.splits)
  have t1: "trace w1 = trace w" using y1 by (rule yield_trace)
  show ?case
  proof (cases r)
    case (Accepted c)
    with Cons.prems(2) y1
    have run: "accept_loop l 0 rs (emit (GoHandleRawConn c) w1) = Inr (ex, w')"
      by simp
    have da: "delay_after 0 0" by (simp add: delay_after_def)
    from Cons.IH [OF da run] Accepted t1 show ?thesis
      by (simp add: emit_def timers_append retries_append)
  next
    case (AcceptError e)
    show ?thesis
    proof (cases "is_temporary e")
      case False
      with Cons.prems(2) y1 AcceptError t1 show ?thesis
        by (auto simp: emit_def timers_append retries_append split: if_splits)
    next
      case True
      let ?d = "backoff d"
      from Cons.prems(2) y1 AcceptError True obtain w2 where
        y2: "yield (emit (LogAcceptRetry e ?d) w1) = Inr w2"
        by (auto simp: Let_def split: sum.splits)
      have t2: "trace w2 = trace w @ [LogAcceptRetry e ?d]"
        using yield_trace [OF y2] t1 by (simp add: emit_def)
      from backoff_step [OF Cons.prems(1)]
      have b: "sint ?d = min (5 * 2 ^ k) 1000 * 1000000" and da: "delay_after (Suc k) ?d"
        by auto
      show ?thesis
      proof (cases "stop (srv w2)")
        case True
        with Cons.prems(2) y1 y2 AcceptError \<open>is_temporary e\<close> have "w' = w2"
          by (simp add: Let_def)
        with t2 b AcceptError \<open>is_temporary e\<close> show ?thesis
          by (simp add: retries_append timers_append)
      next
        case False
        with Cons.prems(2) y1 y2 AcceptError True
        have run: "accept_loop l ?d rs (emit (TimerFired ?d) w2) = Inr (ex, w')"
          by (simp add: Let_def)
        from Cons.IH [OF da run] obtain ds ts where
          "map sint (retries (trace w'))
             = map sint (retries (trace (emit (TimerFired ?d) w2))) @ ds"
          "map sint (timers (trace w'))
             = map sint (timers (trace (emit (TimerFired ?d) w2))) @ ts"
          "prefix ts ds" "prefix ds (spec_delays (Suc k) rs)" by blast
        with t2 b AcceptError True show ?thesis
          by (simp add: emit_def timers_append retries_append)
      qed
    qed
  qed
qed

text \<open>
  C4. In every run of the accept loop the delays announced for the temporary errors
  follow the specification's sequence (5ms, doubled at each consecutive failure,
  capped at 1000ms, starting again at 5ms after a successful accept) for as long as
  the run lasts, and the delays slept in full follow the announced ones. In a run in
  which nobody closes the stop channel both are that sequence in full. When the stop
  channel is closed by the time the backoff select runs, the loop returns with no timer
  fired: it does not wait for the delay to elapse.
\<close>

theorem accept_loop_backoff:
  assumes "accept_loop l 0 rs w = Inr (ex, w')"
    and "\<not> stop (srv u)" and "ActCloseStop \<notin> set (concat (sched u))"
    and "accept_loop l2 0 qs u = Inr (ex2, u')"
    and "yield v = Inr v1" and "is_temporary e"
    and "yield (emit (LogAcceptRetry e (backoff d)) v1) = Inr v2" and "stop (srv v2)"
  shows "(\<exists>ds ts. map sint (retries (trace w')) = map sint (retries (trace w)) @ ds
            \<and> map sint (timers (trace w')) = map sint (timers (trace w)) @ ts
            \<and> prefix ts ds \<and> prefix ds (spec_delays 0 rs))
       \<and> map sint (retries (trace u')) = map sint (retries (trace u)) @ spec_delays 0 qs
       \<and> map sint (timers (trace u')) = map sint (timers (trace u)) @ spec_delays 0 qs
       \<and> accept_loop l3 d (AcceptError e # rs') v = Inr (LoopReturned, v2)
       \<and> trace v2 = trace v @ [LogAcceptRetry e (backoff d)]"
proof -
  have da: "delay_after 0 0" by (simp add: delay_after_def)
  note any = accept_loop_delays_any [OF da assms(1)]
  have ns: "never_stopped u" using assms(2,3) by (simp add: never_stopped_def)
  note delays = accept_loop_delays [OF ns da assms(4)]
  have ret: "accept_loop l3 d (AcceptError e # rs') v = Inr (LoopReturned, v2)"
    using assms(5-8) by (simp add: Let_def)
  have tr: "trace v2 = trace v @ [LogAcceptRetry e (backoff d)]"
    using yield_trace [OF assms(7)] yield_trace [OF assms(5)] by (simp add: emit_def)
  from any delays ret tr show ?thesis by simp
qed

theorem accept_loop_backoff_witness:
  "accept_loop 7 0 [temporary_error, temporary_error, Accepted 4, temporary_error]
        (world_of serving_server [])
      = Inr (InAccept 5000000,
          \<lparr>srv = serving_server, sched = [],
           trace = [LogAcceptRetry (NetError True) 5000000, TimerFired 5000000,
                    LogAcceptRetry (NetError True) 10000000, TimerFired 10000000,
                    GoHandleRawConn 4,
                    LogAcceptRetry (NetError True) 5000000, TimerFired 5000000]\<rparr>)
   \<and> \<not> stop (srv (world_of serving_server []))
   \<and> ActCloseStop \<notin> set (concat (sched (world_of serving_server [])))
   \<and> yield (world_of serving_server [[], [ActCloseStop, ActTakeLisConns]])
      = Inr (world_of serving_server [[ActCloseStop, ActTakeLisConns]])
   \<and> is_temporary (NetError True)
   \<and> yield (emit (LogAcceptRetry (NetError True) (backoff 0))
              (world_of serving_server [[ActCloseStop, ActTakeLisConns]]))
      = Inr \<lparr>srv = stopped_server, sched = [],
             trace = [LogAcceptRetry (NetError True) 5000000]\<rparr>
   \<and> stop (srv \<lparr>srv = stopped_server, sched = [],
                 trace = [LogAcceptRetry (NetError True) 5000000]\<rparr>)
   \<and> spec_delays 0 [temporary_error, temporary_error, Accepted 4, temporary_error]
      = [5000000, 10000000, 5000000]
   \<and> map sint (timers [LogAcceptRetry (NetError True) 5000000, TimerFired 5000000,
                    LogAcceptRetry (NetError True) 10000000, TimerFired 10000000,
                    GoHandleRawConn 4,
                    LogAcceptRetry (NetError True) 5000000, TimerFired 5000000])
      = [5000000, 10000000, 5000000]
   \<and> accept_loop 7 0 [AcceptError (NetError True), Accepted 4]
        (world_of serving_server [[], [ActCloseStop, ActTakeLisConns]])
      = Inr (LoopReturned, \<lparr>srv = stopped_server, sched = [],
             trace = [LogAcceptRetry (NetError True) 5000000]\<rparr>)"
proof -
  let ?w = "world_of serving_server []"
  let ?rs = "[temporary_error, temporary_error, Accepted 4, temporary_error]"
  let ?w' = "\<lparr>srv = serving_server, sched = [],
           trace = [LogAcceptRetry (NetError True) 5000000, TimerFired 5000000,
                    LogAcceptRetry (NetError True) 10000000, TimerFired 10000000,
                    GoHandleRawConn 4,
                    LogAcceptRetry (NetError True) 5000000, TimerFired 5000000]\<rparr>"
  let ?v = "world_of serving_server [[], [ActCloseStop, ActTakeLisConns]]"
  let ?v1 = "world_of serving_server [[ActCloseStop, ActTakeLisConns]]"
  let ?v2 = "\<lparr>srv = stopped_server, sched = [],
             trace = [LogAcceptRetry (NetError True) 5000000]\<rparr>"
  have h1: "\<not> stop (srv ?w)" by (simp add: example_defs)
  have h2: "ActCloseStop \<notin> set (concat (sched ?w))" by (simp add: example_defs)
  have h3: "accept_loop 7 0 ?rs ?w = Inr (InAccept 5000000, ?w')"
    by (simp add: temporary_error_def example_defs yield_def emit_def Let_def backoff_values)
  have h4: "yield ?v = Inr ?v1" by (simp add: example_defs yield_def)
  have h5: "is_temporary (NetError True)" by simp
  have h6: "yield (emit (LogAcceptRetry (NetError True) (backoff 0)) ?v1) = Inr ?v2"
    by (simp add: example_defs yield_def emit_def backoff_values atomic_defs)
  have h7: "stop (srv ?v2)" by (simp add: example_defs)
  have sp: "spec_delays 0 ?rs = [5000000, 10000000, 5000000]"
    by (simp add: temporary_error_def)
  from accept_loop_backoff [OF h3 h1 h2 h3 h4 h5 h6 h7, where rs' = "[Accepted 4]" and ?l3.0 = 7]
    h1 h2 h3 h4 h5 h6 h7 sp
  show ?thesis by simp
qed





subsection \<open>Serve\<close>





subsection \<open>handleRawConn\<close>

text \<open>
  C6. A stream handed to handleRawConn when the registry is already nil is closed at
  once and nothing else happens. A stream whose registration fails, because the
  registry has become nil between the first check and addConn, is closed through
  \<open>Stop(StopImmediately)\<close> on the connection that wraps it. In both cases the
  registry is nil afterwards: the stream is not registered.
\<close>

theorem late_stream_closed:
  assumes "yield w = Inr w1" and "conns (srv w1) = None"
    and "yield v = Inr v1" and "conns (srv v1) \<noteq> None"
    and "deref h (Opts (srv v1)) = Inr opts"
    and "NewConn (Handler opts) (Protocol opts) (SendBufLen opts) = Inr c"
    and "yield (emit (SetRawConn c r') v1) = Inr v2" and "conns (srv v2) = None"
  shows "(\<exists>w'. handleRawConn NewConn' h' r w = Inr w' \<and> trace w' = trace w @ [RawClose r]
            \<and> srv w' = srv w1 \<and> conns (srv w') = None)
       \<and> (\<exists>v'. handleRawConn NewConn h r' v = Inr v'
            \<and> trace v' = trace v @ [SetRawConn c r', ConnStop c StopImmediately]
            \<and> srv v' = srv v2 \<and> conns (srv v') = None)"
proof -
  have nil1: "atomic conns_is_nil w = Inr (True, w1)"
    using assms(1,2) by (simp add: atomic_def conns_is_nil_def)
  have first: "\<exists>w'. handleRawConn NewConn' h' r w = Inr w' \<and> trace w' = trace w @ [RawClose r]
            \<and> srv w' = srv w1 \<and> conns (srv w') = None"
    using nil1 assms(2) yield_trace [OF assms(1)] by (simp add: handleRawConn_def emit_def)
  have nil2: "atomic conns_is_nil v = Inr (False, v1)"
    using assms(3,4) by (simp add: atomic_def conns_is_nil_def)
  have add: "atomic (addConn c) (emit (SetRawConn c r') v1) = Inr (False, v2)"
    using assms(7,8) by (simp add: atomic_def addConn_def)
  have tr: "trace v2 = trace v @ [SetRawConn c r']"
    using yield_trace [OF assms(7)] yield_trace [OF assms(3)] by (simp add: emit_def)
  have second: "\<exists>v'. handleRawConn NewConn h r' v = Inr v'
            \<and> trace v' = trace v @ [SetRawConn c r', ConnStop c StopImmediately]
            \<and> srv v' = srv v2 \<and> conns (srv v') = None"
    using nil2 add assms(5,6,8) tr by (simp add: handleRawConn_def emit_def)
  from first second show ?thesis by blast
qed

theorem late_stream_closed_witness:
  "yield (world_of stopped_server []) = Inr (world_of stopped_server [])
   \<and> conns (srv (world_of stopped_server [])) = None
   \<and> yield (world_of serving_server [[], [ActCloseStop, ActTakeLisConns]])
       = Inr (world_of serving_server [[ActCloseStop, ActTakeLisConns]])
   \<and> conns (srv (world_of serving_server [[ActCloseStop, ActTakeLisConns]])) \<noteq> None
   \<and> deref example_store (Opts (srv (world_of serving_server [[ActCloseStop, ActTakeLisConns]])))
       = Inr (example_store 0)
   \<and> (\<lambda>hd pr n. Inr 5) (Handler (example_store 0)) (Protocol (example_store 0))
         (SendBufLen (example_store 0)) = (Inr 5 :: error + conn)
   \<and> yield (emit (SetRawConn 5 4) (world_of serving_server [[ActCloseStop, ActTakeLisConns]]))
       = Inr \<lparr>srv = stopped_server, sched = [], trace = [SetRawConn 5 4]\<rparr>
   \<and> conns (srv \<lparr>srv = stopped_server, sched = [], trace = [SetRawConn 5 4]\<rparr>) = None
   \<and> handleRawConn (\<lambda>hd pr n. Inr 5) example_store 4 (world_of stopped_server [])
       = Inr \<lparr>srv = stopped_server, sched = [], trace = [RawClose 4]\<rparr>
   \<and> handleRawConn (\<lambda>hd pr n. Inr 5) example_store 4
         (world_of serving_server [[], [ActCloseStop, ActTakeLisConns]])
       = Inr \<lparr>srv = stopped_server, sched = [],
              trace = [SetRawConn 5 4, ConnStop 5 StopImmediately]\<rparr>"
proof -
  let ?w = "world_of stopped_server []"
  let ?v = "world_of serving_server [[], [ActCloseStop, ActTakeLisConns]]"
  let ?v1 = "world_of serving_server [[ActCloseStop, ActTakeLisConns]]"
  let ?v2 = "\<lparr>srv = stopped_server, sched = [], trace = [SetRawConn 5 4]\<rparr>"
  let ?N = "\<lambda>(hd :: nat) (pr :: nat) (n :: 64 word). (Inr 5 :: error + conn)"
  have h1: "yield ?w = Inr ?w" by (simp add: yield_def example_defs)
  have h2: "conns (srv ?w) = None" by (simp add: example_defs)
  have h3: "yield ?v = Inr ?v1" by (simp add: yield_def example_defs)
  have h4: "conns (srv ?v1) \<noteq> None" by (simp add: example_defs)
  have h5: "deref example_store (Opts (srv ?v1)) = Inr (example_store 0)"
    by (simp add: deref_def example_defs)
  have h6: "?N (Handler (example_store 0)) (Protocol (example_store 0))
         (SendBufLen (example_store 0)) = Inr 5" by simp
  have h7: "yield (emit (SetRawConn 5 4) ?v1) = Inr ?v2"
    by (simp add: yield_def emit_def example_defs atomic_defs)
  have h8: "conns (srv ?v2) = None" by (simp add: example_defs)
  have r1: "handleRawConn ?N example_store 4 ?w
       = Inr \<lparr>srv = stopped_server, sched = [], trace = [RawClose 4]\<rparr>"
    by (simp add: handleRawConn_def atomic_def yield_def emit_def example_defs atomic_defs)
  have r2: "handleRawConn ?N example_store 4 ?v
       = Inr \<lparr>srv = stopped_server, sched = [],
              trace = [SetRawConn 5 4, ConnStop 5 StopImmediately]\<rparr>"
    by (simp add: handleRawConn_def atomic_def yield_def emit_def example_defs atomic_defs
          deref_def)
  from late_stream_closed [OF h1 h2 h3 h4 h5 h6 h7 h8, of ?N example_store 4]
    h1 h2 h3 h4 h5 h6 h7 h8 r1 r2
  show ?thesis by simp
qed

text \<open>
  C9. When the registry is not nil at the first check and NewConn returns an error,
  handleRawConn returns at once: the world it leaves is the one the other goroutines
  left at the check. It has emitted nothing (the accepted stream is not closed: it is
  left open) and has not written the registry or the WaitGroup.
\<close>

theorem NewConn_error_leaks_stream:
  assumes "yield w = Inr w1" and "conns (srv w1) \<noteq> None"
    and "deref h (Opts (srv w1)) = Inr opts"
    and "NewConn (Handler opts) (Protocol opts) (SendBufLen opts) = Inl err"
  shows "handleRawConn NewConn h r w = Inr w1 \<and> handleRawConn NewConn h r w = yield w
       \<and> trace w1 = trace w"
proof -
  have nil: "atomic conns_is_nil w = Inr (False, w1)"
    using assms(1,2) by (simp add: atomic_def conns_is_nil_def)
  show ?thesis using nil assms yield_trace [OF assms(1)] by (simp add: handleRawConn_def)
qed

theorem NewConn_error_leaks_stream_witness:
  "yield (world_of serving_server []) = Inr (world_of serving_server [])
   \<and> conns (srv (world_of serving_server [])) \<noteq> None
   \<and> deref example_store (Opts (srv (world_of serving_server []))) = Inr (example_store 0)
   \<and> (\<lambda>hd pr n. Inl ''no protocol'') (Handler (example_store 0)) (Protocol (example_store 0))
         (SendBufLen (example_store 0)) = (Inl ''no protocol'' :: error + conn)
   \<and> handleRawConn (\<lambda>hd pr n. Inl ''no protocol'') example_store 4 (world_of serving_server [])
       = Inr \<lparr>srv = serving_server, sched = [], trace = []\<rparr>"
  using NewConn_error_leaks_stream [of "world_of serving_server []" "world_of serving_server []"
      example_store "example_store 0" "\<lambda>hd pr n. Inl ''no protocol''" "''no protocol''" 4]
  by (simp add: yield_def deref_def example_defs)

subsection \<open>NewServer\<close>

text \<open>With a nil pointer NewServer panics at \<open>s.Opts.SendBufLen\<close>.\<close>

lemma NewServer_nil: "NewServer Nil h = Inl NilPointerDereference"
  by (simp add: NewServer_def)

text \<open>
  C8. For options at a valid address NewServer returns a server, with an empty trace
  (it calls no collaborator), and the send-buffer length the server then reads through
  its \<open>Opts\<close> pointer is the configured one when that is not zero and 128, the value
  of DefaultSendBufLength, when it is zero.
\<close>

theorem NewServer_SendBufLen:
  "\<exists>s h'. NewServer (Ptr a) h = Inr (s, h', [])
      \<and> deref h' (Opts s) = Inr (h' a)
      \<and> SendBufLen (h' a) = (if SendBufLen (h a) = 0 then 128 else SendBufLen (h a))
      \<and> DefaultSendBufLength = 128"
proof (cases "SendBufLen (h a) = 0")
  case True
  then have "NewServer (Ptr a) h
      = Inr (\<lparr>Opts = Ptr a, stop = False, wg = 0, lis = None, conns = Some []\<rparr>,
             h(a := (h a)\<lparr>SendBufLen := DefaultSendBufLength\<rparr>), [])"
    by (simp add: NewServer_def)
  with True show ?thesis by (simp add: deref_def DefaultSendBufLength_def)
next
  case False
  then have "NewServer (Ptr a) h
      = Inr (\<lparr>Opts = Ptr a, stop = False, wg = 0, lis = None, conns = Some []\<rparr>, h, [])"
    by (simp add: NewServer_def)
  with False show ?thesis by (simp add: deref_def DefaultSendBufLength_def)
qed

theorem NewServer_SendBufLen_witness:
  "(\<exists>s h'. NewServer (Ptr 0) example_store = Inr (s, h', [])
      \<and> deref h' (Opts s) = Inr (h' 0) \<and> SendBufLen (h' 0) = 128)
   \<and> (\<exists>s h'. NewServer (Ptr 0) (example_store(0 := (example_store 0)\<lparr>SendBufLen := 64\<rparr>))
                = Inr (s, h', [])
      \<and> deref h' (Opts s) = Inr (h' 0) \<and> SendBufLen (h' 0) = 64)"
  using NewServer_SendBufLen [of 0 example_store]
    NewServer_SendBufLen [of 0 "example_store(0 := (example_store 0)\<lparr>SendBufLen := 64\<rparr>)"]
  by (auto simp: example_defs)

text \<open>
  C10. The server NewServer returns holds the very pointer the caller passed, and the
  defaulting is a write into the caller's struct: the store afterwards is the store
  before with 128 written to \<open>SendBufLen\<close> at that address when it was zero, and the
  store before, unchanged, otherwise. LisAddr, Handler and Protocol of the caller's
  struct, and every other struct of the store, are as they were.
\<close>

theorem NewServer_aliases_opts:
  "\<exists>s h'. NewServer (Ptr a) h = Inr (s, h', [])
      \<and> Opts s = Ptr a
      \<and> h' = (if SendBufLen (h a) = 0 then h(a := (h a)\<lparr>SendBufLen := 128\<rparr>) else h)
      \<and> LisAddr (h' a) = LisAddr (h a) \<and> Handler (h' a) = Handler (h a)
      \<and> Protocol (h' a) = Protocol (h a)
      \<and> h'(a := h a) = h"
proof (cases "SendBufLen (h a) = 0")
  case True
  then have "NewServer (Ptr a) h
      = Inr (\<lparr>Opts = Ptr a, stop = False, wg = 0, lis = None, conns = Some []\<rparr>,
             h(a := (h a)\<lparr>SendBufLen := 128\<rparr>), [])"
    by (simp add: NewServer_def DefaultSendBufLength_def)
  with True show ?thesis by simp
next
  case False
  then have "NewServer (Ptr a) h
      = Inr (\<lparr>Opts = Ptr a, stop = False, wg = 0, lis = None, conns = Some []\<rparr>, h, [])"
    by (simp add: NewServer_def)
  with False show ?thesis by simp
qed

theorem NewServer_aliases_opts_witness:
  "\<exists>s h'. NewServer (Ptr 0) example_store = Inr (s, h', [])
      \<and> Opts s = Ptr 0
      \<and> h' = example_store(0 := (example_store 0)\<lparr>SendBufLen := 128\<rparr>)
      \<and> h' 0 = \<lparr>LisAddr = '':9000'', Handler = 1, Protocol = 2, SendBufLen = 128\<rparr>
      \<and> h' 1 = example_store 1"
  using NewServer_aliases_opts [of 0 example_store]
  by (auto simp: example_defs)

end
